theory Spec2Isabelle
  imports Main "HOL-Library.Word"
begin

unbundle bit_operations_syntax

section \<open>Go values\<close>

text \<open>
  A Go \<^verbatim>\<open>string\<close> and a \<^verbatim>\<open>[]byte\<close> are sequences of bytes; \<^typ>\<open>char\<close> is a byte, so
  both are \<^typ>\<open>string\<close>. A slice and a map have a \<^verbatim>\<open>nil\<close> value that differs from the
  empty one, and a pointer may be \<^verbatim>\<open>nil\<close>: each is an option, \<open>None\<close> being \<^verbatim>\<open>nil\<close>.
  A panic is a value of the type \<open>panic\<close>: the two run-time panics the code can
  raise, and the one that \<^verbatim>\<open>net/http\<close> raises inside \<^verbatim>\<open>WriteHeader\<close>.
\<close>

type_synonym 'a slice = "'a list option"

type_synonym ('k, 'v) gomap = "('k \<rightharpoonup> 'v) option"

type_synonym 'a ptr = "'a option"

datatype panic = NilDereference | IndexOutOfRange int nat | InvalidWriteHeaderCode int

definition load :: "'a ptr \<Rightarrow> panic + 'a" where
  \<comment> \<open>reading through a pointer: \<^verbatim>\<open>x.F\<close> panics when \<^verbatim>\<open>x\<close> is nil\<close>
  "load p = (case p of None \<Rightarrow> Inl NilDereference | Some v \<Rightarrow> Inr v)"

definition index_at :: "'a list \<Rightarrow> int \<Rightarrow> panic + 'a" where
  \<comment> \<open>\<^verbatim>\<open>xs[i]\<close>: panics with "index out of range [i] with length n" outside \<open>0 \<le> i < n\<close>\<close>
  "index_at xs i =
     (if 0 \<le> i \<and> i < int (length xs) then Inr (xs ! nat i)
      else Inl (IndexOutOfRange i (length xs)))"

section \<open>The wire contract (proto/types.pb.go)\<close>

text \<open>
  The three generated message types, with their exported fields. The fields \<^verbatim>\<open>state\<close>,
  \<^verbatim>\<open>sizeCache\<close> and \<^verbatim>\<open>unknownFields\<close> belong to the protobuf runtime and no getter
  reads them.
\<close>

record HeaderFields =
  Fields :: "string slice"

record HTTPRequest =
  Body :: "char slice"
  Method :: string
  URL :: string
  EndpointID :: string
  ID :: string
  Header :: "(string, HeaderFields ptr) gomap"
  Runtime :: string
  ActiveDeployID :: string
  Env :: "(string, string) gomap"

record HTTPResponse =
  Response :: "char slice"
  StatusCode :: "32 word"
  RequestID :: string

text \<open>
  Every getter has the shape
  \<^verbatim>\<open>if x != nil { return x.F }; return zero\<close>.
  The field read is a \<open>load\<close>, which can panic; the guard is what keeps it from doing so.
\<close>

definition getter :: "'r ptr \<Rightarrow> ('r \<Rightarrow> 'a) \<Rightarrow> 'a \<Rightarrow> panic + 'a" where
  "getter x field zero = (if x \<noteq> None then map_sum id field (load x) else Inr zero)"

definition GetBody :: "HTTPRequest ptr \<Rightarrow> panic + char slice" where
  "GetBody x = getter x Body None"

definition GetMethod :: "HTTPRequest ptr \<Rightarrow> panic + string" where
  "GetMethod x = getter x Method ''''"

definition GetURL :: "HTTPRequest ptr \<Rightarrow> panic + string" where
  "GetURL x = getter x URL ''''"

definition GetEndpointID :: "HTTPRequest ptr \<Rightarrow> panic + string" where
  "GetEndpointID x = getter x EndpointID ''''"

definition GetID :: "HTTPRequest ptr \<Rightarrow> panic + string" where
  "GetID x = getter x ID ''''"

definition GetHeader :: "HTTPRequest ptr \<Rightarrow> panic + (string, HeaderFields ptr) gomap" where
  "GetHeader x = getter x Header None"

definition GetRuntime :: "HTTPRequest ptr \<Rightarrow> panic + string" where
  "GetRuntime x = getter x Runtime ''''"

definition GetActiveDeployID :: "HTTPRequest ptr \<Rightarrow> panic + string" where
  "GetActiveDeployID x = getter x ActiveDeployID ''''"

definition GetEnv :: "HTTPRequest ptr \<Rightarrow> panic + (string, string) gomap" where
  "GetEnv x = getter x Env None"

definition GetFields :: "HeaderFields ptr \<Rightarrow> panic + string slice" where
  "GetFields x = getter x Fields None"

definition GetResponse :: "HTTPResponse ptr \<Rightarrow> panic + char slice" where
  "GetResponse x = getter x Response None"

definition GetStatusCode :: "HTTPResponse ptr \<Rightarrow> panic + 32 word" where
  "GetStatusCode x = getter x StatusCode 0"

definition GetRequestID :: "HTTPResponse ptr \<Rightarrow> panic + string" where
  "GetRequestID x = getter x RequestID ''''"

section \<open>Library functions the handler calls\<close>

text \<open>
  \<^verbatim>\<open>strings.Split(s, sep)\<close> for a separator of one byte, which is what both call sites
  pass (\<^verbatim>\<open>"\n"\<close> and \<^verbatim>\<open>"|"\<close>). The library's loop finds the next separator with
  \<^verbatim>\<open>Index\<close>, cuts \<^verbatim>\<open>s[:m]\<close> off, continues with \<^verbatim>\<open>s[m+len(sep):]\<close>, and ends with
  the rest as the last element; a string without separator, the empty one included,
  gives one element.
\<close>

fun Index :: "string \<Rightarrow> char \<Rightarrow> nat option" where
  "Index [] c = None"
| "Index (x # xs) c = (if x = c then Some 0 else map_option Suc (Index xs c))"

lemma Index_less: "Index s c = Some m \<Longrightarrow> m < length s"
  by (induction s arbitrary: m) (auto split: if_splits)

function Split :: "string \<Rightarrow> char \<Rightarrow> string list" where
  "Split s c =
     (case Index s c of
        None \<Rightarrow> [s]
      | Some m \<Rightarrow> take m s # Split (drop (m + 1) s) c)"
  by pat_completeness auto
termination
  by (relation "measure (\<lambda>(s, c). length s)") (auto dest: Index_less)

declare Split.simps [simp del]

text \<open>
  \<^verbatim>\<open>strconv.Atoi\<close> on a platform whose \<^verbatim>\<open>int\<close> has 64 bits. It returns a value and
  an error; the value is meaningful only when the error is nil, but the handler reads it
  either way, so the model returns both. Machine integers are integers with the
  wrap-around written out: \<open>uint64\<close> and \<open>int64\<close> reduce to the range of the type, and
  a byte is a number below 256.

  A short string (fewer than 19 bytes) takes the fast path of \<^verbatim>\<open>Atoi\<close>; everything
  else goes through \<^verbatim>\<open>ParseInt(s, 10, 0)\<close>, which strips the sign and calls
  \<^verbatim>\<open>ParseUint\<close>. On overflow \<^verbatim>\<open>ParseUint\<close> returns at once, before it has looked at
  the remaining bytes.
\<close>

datatype NumError = ErrSyntax | ErrRange

definition byte :: "char \<Rightarrow> int" where
  "byte c = of_char c"

definition uint64 :: "int \<Rightarrow> int" where
  "uint64 i = i mod 2 ^ 64"

definition int64 :: "int \<Rightarrow> int" where
  "int64 i = (i + 2 ^ 63) mod 2 ^ 64 - 2 ^ 63"

definition maxUint64 :: int where
  "maxUint64 = 2 ^ 64 - 1"

definition lower :: "int \<Rightarrow> int" where
  \<comment> \<open>\<^verbatim>\<open>c | ('x' - 'X')\<close>\<close>
  "lower c = c OR 32"

definition digit_value :: "char \<Rightarrow> int option" where
  \<comment> \<open>the \<^verbatim>\<open>switch\<close> of \<^verbatim>\<open>ParseUint\<close>; \<open>None\<close> is its \<^verbatim>\<open>default\<close> branch\<close>
  "digit_value c =
     (if 48 \<le> byte c \<and> byte c \<le> 57 then Some (byte c - 48)
      else if 97 \<le> lower (byte c) \<and> lower (byte c) \<le> 122
        then Some (lower (byte c) - 97 + 10)
      else None)"

fun ParseUint_loop :: "int \<Rightarrow> string \<Rightarrow> int \<times> NumError option" where
  "ParseUint_loop n [] = (n, None)"
| "ParseUint_loop n (c # cs) =
     (case digit_value c of
        None \<Rightarrow> (0, Some ErrSyntax)
      | Some d \<Rightarrow>
          if d \<ge> 10 then (0, Some ErrSyntax)
          else if n \<ge> maxUint64 div 10 + 1 then (maxUint64, Some ErrRange)
          else
            (let n10 = uint64 (n * 10);
                 n1 = uint64 (n10 + d)
             in if n1 < n10 \<or> n1 > maxUint64 then (maxUint64, Some ErrRange)
                else ParseUint_loop n1 cs))"

definition ParseUint :: "string \<Rightarrow> int \<times> NumError option" where
  "ParseUint s = (if s = [] then (0, Some ErrSyntax) else ParseUint_loop 0 s)"

definition ParseInt :: "string \<Rightarrow> int \<times> NumError option" where
  "ParseInt s0 =
     (if s0 = [] then (0, Some ErrSyntax)
      else
        (let neg = (hd s0 = CHR ''-'');
             s = (if hd s0 = CHR ''+'' \<or> hd s0 = CHR ''-'' then tl s0 else s0);
             (un, err) = ParseUint s
         in if err = Some ErrSyntax then (0, err)
            else
              (let cutoff = uint64 (2 ^ 63)
               in if \<not> neg \<and> un \<ge> cutoff then (int64 (cutoff - 1), Some ErrRange)
                  else if neg \<and> un > cutoff then (int64 (- int64 cutoff), Some ErrRange)
                  else (let n = int64 un in if neg then int64 (- n) else n, None))))"

fun Atoi_fast :: "int \<Rightarrow> string \<Rightarrow> int option" where
  "Atoi_fast n [] = Some n"
| "Atoi_fast n (c # cs) =
     (let ch = (byte c + 256 - 48) mod 256
      in if ch > 9 then None else Atoi_fast (int64 (n * 10 + ch)) cs)"

definition Atoi :: "string \<Rightarrow> int \<times> NumError option" where
  "Atoi s0 =
     (if 0 < length s0 \<and> length s0 < 19 then
        (let signed = (hd s0 = CHR ''-'' \<or> hd s0 = CHR ''+'');
             s = (if signed then tl s0 else s0)
         in if signed \<and> length s < 1 then (0, Some ErrSyntax)
            else
              (case Atoi_fast 0 s of
                 None \<Rightarrow> (0, Some ErrSyntax)
               | Some n \<Rightarrow> (if hd s0 = CHR ''-'' then int64 (- n) else n, None)))
      else ParseInt s0)"

section \<open>The request handler of handleRunEndpoint\<close>

text \<open>
  \<^verbatim>\<open>handleRunEndpoint\<close> compiles the module once and serves every request with one
  closure:

  \<^verbatim>\<open>
  if r.URL.Path == "/favicon.ico" {
      return
  }
  out := &bytes.Buffer{}
  modConfig := wazero.NewModuleConfig().WithStdout(out). ...
  _, err = runtime.InstantiateModule(ctx, mod, modConfig)
  if err != nil {
      w.Write([]byte(err.Error()))
      return
  }
  lines := strings.Split(out.String(), "\n")
  last := lines[len(lines)-2]
  parts := strings.Split(last, "|")
  status, _ := strconv.Atoi(parts[1])
  w.WriteHeader(status)
  w.Write([]byte(parts[0]))
  \<close>

  The model is that closure, for one request. Its inputs are the request's path and what
  \<^verbatim>\<open>runtime.InstantiateModule\<close> did: the bytes the guest wrote to the buffer \<^verbatim>\<open>out\<close>,
  and the message of the error it returned, if any (\<open>None\<close> is \<^verbatim>\<open>err == nil\<close>). Its
  result is the list of calls on the \<^verbatim>\<open>http.ResponseWriter\<close> that returned, in order,
  and whether the closure returned or panicked.

  The closure is passed to \<^verbatim>\<open>http.ListenAndServe\<close>, so the only writer it is ever given
  is the one of \<^verbatim>\<open>net/http\<close>. The first thing that writer's \<^verbatim>\<open>WriteHeader\<close> does on
  a first call is \<^verbatim>\<open>checkWriteHeaderCode\<close>:

  \<^verbatim>\<open>
  if code < 100 || code > 999 {
      panic(fmt.Sprintf("invalid WriteHeader code %v", code))
  }
  \<close>

  The panic unwinds the closure: the \<^verbatim>\<open>Write\<close> after it is never reached and nothing
  is sent. \<^verbatim>\<open>Write\<close> itself does not panic.

  The run of the guest inside wazero, the time it takes, and requests served at the same
  time are outside the model; so are the bytes the server puts on the wire for the calls
  that returned.
\<close>

datatype rw_call = WriteHeader int | Write string

datatype result = Returned "rw_call list" | Panicked panic "rw_call list"

definition checkWriteHeaderCode :: "int \<Rightarrow> panic + unit" where
  "checkWriteHeaderCode code =
     (if code < 100 \<or> code > 999 then Inl (InvalidWriteHeaderCode code) else Inr ())"

definition last_line :: "string \<Rightarrow> panic + string" where
  \<comment> \<open>the first two statements: the value of \<^verbatim>\<open>last\<close>\<close>
  "last_line out =
     (let lines = Split out (CHR 0x0A)
      in index_at lines (int (length lines) - 2))"

definition respond :: "string \<Rightarrow> result" where
  \<comment> \<open>the other four statements, given \<^verbatim>\<open>last\<close>\<close>
  "respond line =
     (let parts = Split line (CHR ''|'')
      in case index_at parts 1 of
           Inl p \<Rightarrow> Panicked p []
         | Inr field \<Rightarrow>
             (let status = fst (Atoi field)
              in case checkWriteHeaderCode status of
                   Inl p \<Rightarrow> Panicked p []
                 | Inr _ \<Rightarrow>
                     (case index_at parts 0 of
                        Inl p \<Rightarrow> Panicked p [WriteHeader status]
                      | Inr body \<Rightarrow> Returned [WriteHeader status, Write body])))"

definition handleRunEndpoint :: "string \<Rightarrow> string \<Rightarrow> string option \<Rightarrow> result" where
  "handleRunEndpoint path out err =
     (if path = ''/favicon.ico'' then Returned []
      else
        (case err of
           Some msg \<Rightarrow> Returned [Write msg]
         | None \<Rightarrow>
             (case last_line out of
                Inl p \<Rightarrow> Panicked p []
              | Inr line \<Rightarrow> respond line)))"

section \<open>What the specification calls a base-10 integer\<close>

text \<open>
  The specification's trailer is \<^verbatim>\<open>body|N\<close> with \<^verbatim>\<open>N\<close> a base-10 integer. This is
  that notion, independent of \<^verbatim>\<open>Atoi\<close>: an optional sign and at least one decimal
  digit, denoting an integer of any size.
\<close>

definition is_digit :: "char \<Rightarrow> bool" where
  "is_digit c = (48 \<le> byte c \<and> byte c \<le> 57)"

fun digits_value :: "int \<Rightarrow> string \<Rightarrow> int" where
  "digits_value n [] = n"
| "digits_value n (c # cs) = digits_value (n * 10 + (byte c - 48)) cs"

definition base10_integer :: "string \<Rightarrow> int option" where
  "base10_integer s =
     (let signed = (s \<noteq> [] \<and> (hd s = CHR ''+'' \<or> hd s = CHR ''-''));
          ds = (if signed then tl s else s)
      in if ds \<noteq> [] \<and> list_all is_digit ds
         then Some (if signed \<and> hd s = CHR ''-'' then - digits_value 0 ds
                    else digits_value 0 ds)
         else None)"

section \<open>Properties of the getters\<close>

lemma getter_total:
  "getter x field zero = Inr (case x of None \<Rightarrow> zero | Some r \<Rightarrow> field r)"
  by (cases x) (simp_all add: getter_def load_def)

text \<open>
  Claim C10. Every getter of \<^verbatim>\<open>HTTPRequest\<close>, \<^verbatim>\<open>HeaderFields\<close> and \<^verbatim>\<open>HTTPResponse\<close>
  returns normally on every receiver, the nil pointer included: the field's value when
  the receiver is not nil, and the zero value of the field's type (the nil slice or map,
  the empty string, 0) when it is nil. No getter panics.
\<close>

theorem getters_nil_safe:
  "GetBody x = Inr (case x of None \<Rightarrow> None | Some r \<Rightarrow> Body r) \<and>
   GetMethod x = Inr (case x of None \<Rightarrow> '''' | Some r \<Rightarrow> Method r) \<and>
   GetURL x = Inr (case x of None \<Rightarrow> '''' | Some r \<Rightarrow> URL r) \<and>
   GetEndpointID x = Inr (case x of None \<Rightarrow> '''' | Some r \<Rightarrow> EndpointID r) \<and>
   GetID x = Inr (case x of None \<Rightarrow> '''' | Some r \<Rightarrow> ID r) \<and>
   GetHeader x = Inr (case x of None \<Rightarrow> None | Some r \<Rightarrow> Header r) \<and>
   GetRuntime x = Inr (case x of None \<Rightarrow> '''' | Some r \<Rightarrow> Runtime r) \<and>
   GetActiveDeployID x = Inr (case x of None \<Rightarrow> '''' | Some r \<Rightarrow> ActiveDeployID r) \<and>
   GetEnv x = Inr (case x of None \<Rightarrow> None | Some r \<Rightarrow> Env r) \<and>
   GetFields h = Inr (case h of None \<Rightarrow> None | Some r \<Rightarrow> Fields r) \<and>
   GetResponse y = Inr (case y of None \<Rightarrow> None | Some r \<Rightarrow> Response r) \<and>
   GetStatusCode y = Inr (case y of None \<Rightarrow> 0 | Some r \<Rightarrow> StatusCode r) \<and>
   GetRequestID y = Inr (case y of None \<Rightarrow> '''' | Some r \<Rightarrow> RequestID r)"
  unfolding GetBody_def GetMethod_def GetURL_def GetEndpointID_def GetID_def GetHeader_def
    GetRuntime_def GetActiveDeployID_def GetEnv_def GetFields_def GetResponse_def
    GetStatusCode_def GetRequestID_def
  by (simp only: getter_total simp_thms)

section \<open>Properties of Split\<close>

text \<open>
  \<open>Split\<close> cuts at every separator: the pieces before and after a separator are split
  on their own, a string has one element more than it has separators, and the first
  element is what stands before the first separator.
\<close>

lemma Index_None: "c \<notin> set s \<Longrightarrow> Index s c = None"
  by (induction s) auto

lemma Index_NoneD: "Index s c = None \<Longrightarrow> c \<notin> set s"
  by (induction s) (auto split: if_splits)

lemma Index_first: "c \<notin> set l \<Longrightarrow> Index (l @ c # r) c = Some (length l)"
  by (induction l) auto

lemma Split_no_sep: "c \<notin> set s \<Longrightarrow> Split s c = [s]"
  by (subst Split.simps) (simp add: Index_None)

lemma Split_first: "c \<notin> set l \<Longrightarrow> Split (l @ c # r) c = l # Split r c"
  by (subst Split.simps) (simp add: Index_first)

lemma Index_Some_split:
  "Index s c = Some m \<Longrightarrow> c \<notin> set (take m s) \<and> s = take m s @ c # drop (m + 1) s"
proof (induction s arbitrary: m)
  case Nil
  then show ?case by simp
next
  case (Cons x xs)
  show ?case
  proof (cases "x = c")
    case True
    with Cons.prems show ?thesis by simp
  next
    case False
    with Cons.prems obtain k where k: "Index xs c = Some k" "m = Suc k"
      by auto
    from Cons.IH [OF k(1)] False k(2) show ?thesis by auto
  qed
qed

lemma Split_append: "Split (a @ c # b) c = Split a c @ Split b c"
proof (induction a c rule: Split.induct)
  case (1 s c)
  show ?case
  proof (cases "Index s c")
    case None
    then have "c \<notin> set s"
      by (rule Index_NoneD)
    then show ?thesis
      by (simp add: Split_first Split_no_sep)
  next
    case (Some m)
    from Index_Some_split [OF Some]
    have notin: "c \<notin> set (take m s)" and s: "s = take m s @ c # drop (m + 1) s"
      by simp_all
    have "Split (s @ c # b) c = Split (take m s @ c # (drop (m + 1) s @ c # b)) c"
      using s by (metis append.assoc append_Cons)
    also have "\<dots> = take m s # Split (drop (m + 1) s @ c # b) c"
      using notin by (rule Split_first)
    also have "\<dots> = take m s # (Split (drop (m + 1) s) c @ Split b c)"
      using "1.IH" [OF Some] by simp
    finally have step: "Split (s @ c # b) c = (take m s # Split (drop (m + 1) s) c) @ Split b c"
      by simp
    have "Split s c = take m s # Split (drop (m + 1) s) c"
      using Some by (subst Split.simps) simp
    with step show ?thesis by simp
  qed
qed

lemma Split_not_Nil: "Split s c \<noteq> []"
  by (subst Split.simps) (simp split: option.split)

lemma Split_Nil: "Split [] c = [[]]"
  by (simp add: Split_no_sep)

lemma takeWhile_no_sep: "c \<notin> set s \<Longrightarrow> takeWhile (\<lambda>x. x \<noteq> c) s = s"
  by (induction s) auto

lemma hd_Split: "hd (Split s c) = takeWhile (\<lambda>x. x \<noteq> c) s"
proof (cases "c \<in> set s")
  case False
  then show ?thesis by (simp add: Split_no_sep takeWhile_no_sep)
next
  case True
  then obtain l r where s: "s = l @ c # r" and l: "c \<notin> set l"
    by (meson split_list_first)
  then show ?thesis
    by (simp add: Split_first takeWhile_tail takeWhile_no_sep)
qed


section \<open>Properties of Atoi\<close>

text \<open>
  On a base-10 integer that fits 64 bits, \<open>Atoi\<close> returns that integer and no error, on
  the fast path and on the slow one. The fast path never wraps: fewer than 19 digits stay
  below \<open>10 ^ 18\<close>.
\<close>

lemma is_digit_not_sign: "is_digit c \<Longrightarrow> c \<noteq> CHR ''+'' \<and> c \<noteq> CHR ''-''"
  by (auto simp: is_digit_def byte_def)

lemma is_digit_not_sep: "is_digit c \<Longrightarrow> c \<noteq> CHR ''|'' \<and> c \<noteq> CHR 0x0A"
  by (auto simp: is_digit_def byte_def)

lemma digit_value_digit: "is_digit c \<Longrightarrow> digit_value c = Some (byte c - 48)"
  by (simp add: digit_value_def is_digit_def)

lemma int64_id: "- (2 ^ 63) \<le> i \<Longrightarrow> i < 2 ^ 63 \<Longrightarrow> int64 i = i"
  by (simp add: int64_def mod_pos_pos_trivial)

lemma int64_neg_int64: "0 \<le> v \<Longrightarrow> v \<le> 2 ^ 63 \<Longrightarrow> int64 (- int64 v) = - v"
proof (cases "v = 2 ^ 63")
  case True
  then show ?thesis by (simp add: int64_def)
next
  case False
  assume "0 \<le> v" "v \<le> 2 ^ 63"
  with False have "int64 v = v" by (intro int64_id) simp_all
  moreover have "int64 (- v) = - v"
    using \<open>0 \<le> v\<close> \<open>v \<le> 2 ^ 63\<close> by (intro int64_id) simp_all
  ultimately show ?thesis by simp
qed

lemma pow10_le_int64: "k < 19 \<Longrightarrow> (10 :: int) ^ k \<le> 2 ^ 63"
proof -
  assume "k < 19"
  then have "(10 :: int) ^ k \<le> 10 ^ 18"
    by (intro power_increasing) simp_all
  also have "(10 :: int) ^ 18 \<le> 2 ^ 63"
    by simp
  finally show ?thesis .
qed

lemma Atoi_fast_digits:
  "list_all is_digit ds \<Longrightarrow> 0 \<le> n \<Longrightarrow> (n + 1) * 10 ^ length ds \<le> 2 ^ 63 \<Longrightarrow>
   Atoi_fast n ds = Some (digits_value n ds)"
proof (induction ds arbitrary: n)
  case Nil
  show ?case by simp
next
  case (Cons c cs)
  define d where "d = byte c - 48"
  from Cons.prems(1) have dc: "is_digit c" and cs: "list_all is_digit cs"
    by simp_all
  from dc have c: "48 \<le> byte c" "byte c \<le> 57"
    by (simp_all add: is_digit_def)
  then have d: "0 \<le> d" "d \<le> 9"
    by (simp_all add: d_def)
  have ch: "(byte c + 256 - 48) mod 256 = d"
  proof -
    have "(byte c + 256 - 48) mod 256 = (d + 256) mod 256"
      by (simp add: d_def algebra_simps)
    also have "\<dots> = d mod 256"
      by (simp only: mod_add_self2)
    also have "\<dots> = d"
      using d by (intro mod_pos_pos_trivial) simp_all
    finally show ?thesis .
  qed
  have n1: "0 \<le> n * 10 + d"
    using Cons.prems(2) d by simp
  have le1: "(n * 10 + d + 1) * 10 ^ length cs \<le> ((n + 1) * 10) * 10 ^ length cs"
    using d by (intro mult_right_mono) simp_all
  have "((n + 1) * 10) * 10 ^ length cs = (n + 1) * 10 ^ length (c # cs)"
    by simp
  then have le2: "((n + 1) * 10) * 10 ^ length cs \<le> 2 ^ 63"
    using Cons.prems(3) by (rule ord_eq_le_trans)
  from le1 le2 have bound: "(n * 10 + d + 1) * 10 ^ length cs \<le> 2 ^ 63"
    by (rule order_trans)
  have "n * 10 + d + 1 \<le> (n * 10 + d + 1) * 10 ^ length cs"
    using n1 by (intro mult_le_cancel_left1 [THEN iffD2]) simp
  with bound have "n * 10 + d < 2 ^ 63"
    by simp
  with n1 have wrap: "int64 (n * 10 + d) = n * 10 + d"
    by (intro int64_id) simp_all
  from Cons.IH [OF cs n1 bound] have "Atoi_fast (n * 10 + d) cs = Some (digits_value (n * 10 + d) cs)" .
  with ch d wrap show ?case
    by (simp add: Let_def d_def)
qed

lemma Atoi_fast_short:
  assumes "list_all is_digit ds" and "length ds < 19"
  shows "Atoi_fast 0 ds = Some (digits_value 0 ds)"
  using assms(1) pow10_le_int64 [OF assms(2)] by (intro Atoi_fast_digits) simp_all

lemma digits_value_ge:
  "list_all is_digit ds \<Longrightarrow> 0 \<le> n \<Longrightarrow> n \<le> digits_value n ds"
proof (induction ds arbitrary: n)
  case Nil
  show ?case by simp
next
  case (Cons c cs)
  then have dc: "is_digit c" and cs: "list_all is_digit cs"
    by simp_all
  from dc have c: "0 \<le> byte c - 48"
    by (simp add: is_digit_def)
  from Cons.prems(2) c have "0 \<le> n * 10 + (byte c - 48)" by simp
  from Cons.IH [OF cs this] Cons.prems(2) c show ?case by simp
qed

lemma digits_value_nonneg: "list_all is_digit ds \<Longrightarrow> 0 \<le> digits_value 0 ds"
  using digits_value_ge [of ds 0] by simp

lemma ParseUint_loop_digits:
  "list_all is_digit ds \<Longrightarrow> 0 \<le> n \<Longrightarrow> digits_value n ds < 2 ^ 64 \<Longrightarrow>
   ParseUint_loop n ds = (digits_value n ds, None)"
proof (induction ds arbitrary: n)
  case Nil
  show ?case by simp
next
  case (Cons c cs)
  define d where "d = byte c - 48"
  from Cons.prems(1) have c: "is_digit c" and cs: "list_all is_digit cs"
    by simp_all
  from c have d: "0 \<le> d" "d \<le> 9"
    by (simp_all add: d_def is_digit_def)
  have n1: "0 \<le> n * 10 + d"
    using Cons.prems(2) d by simp
  have "n * 10 + d \<le> digits_value (n * 10 + d) cs"
    using cs n1 by (rule digits_value_ge)
  with Cons.prems(3) have lt: "n * 10 + d < 2 ^ 64"
    by (simp add: d_def)
  have u10: "uint64 (n * 10) = n * 10"
    using Cons.prems(2) lt d by (simp add: uint64_def mod_pos_pos_trivial)
  have u1: "uint64 (n * 10 + d) = n * 10 + d"
    using n1 lt by (simp add: uint64_def mod_pos_pos_trivial)
  have cut: "\<not> n \<ge> maxUint64 div 10 + 1"
    using lt d by (simp add: maxUint64_def)
  have le: "n * 10 + d \<le> maxUint64"
    using lt by (simp add: maxUint64_def)
  have rec: "ParseUint_loop (n * 10 + d) cs = (digits_value (n * 10 + d) cs, None)"
    using cs n1 Cons.prems(3) by (intro Cons.IH) (simp_all add: d_def)
  show ?case
    using digit_value_digit [OF c] d cut le u10 u1 rec
    by (simp add: Let_def d_def)
qed

lemma base10_integerE:
  assumes "base10_integer s = Some N"
  obtains ds where "ds \<noteq> []" "list_all is_digit ds"
    and "s = ds \<and> N = digits_value 0 ds \<or> s = CHR ''+'' # ds \<and> N = digits_value 0 ds
         \<or> s = CHR ''-'' # ds \<and> N = - digits_value 0 ds"
proof -
  define signed where "signed = (s \<noteq> [] \<and> (hd s = CHR ''+'' \<or> hd s = CHR ''-''))"
  define ds where "ds = (if signed then tl s else s)"
  from assms have ok: "ds \<noteq> []" "list_all is_digit ds"
    and N: "N = (if signed \<and> hd s = CHR ''-'' then - digits_value 0 ds else digits_value 0 ds)"
    by (auto simp: base10_integer_def Let_def signed_def ds_def split: if_splits)
  have "s = ds \<and> N = digits_value 0 ds \<or> s = CHR ''+'' # ds \<and> N = digits_value 0 ds
         \<or> s = CHR ''-'' # ds \<and> N = - digits_value 0 ds"
  proof (cases signed)
    case False
    with N show ?thesis by (simp add: ds_def)
  next
    case True
    then obtain c where s: "s = c # ds" and c: "c = CHR ''+'' \<or> c = CHR ''-''"
      by (cases s) (auto simp: signed_def ds_def)
    with N True show ?thesis by auto
  qed
  with ok show thesis by (rule that)
qed

lemma Atoi_unsigned:
  assumes ds: "ds \<noteq> []" "list_all is_digit ds" and hi: "digits_value 0 ds < 2 ^ 63"
  shows "Atoi ds = (digits_value 0 ds, None)"
proof -
  obtain c cs where c: "ds = c # cs" using ds(1) by (cases ds) auto
  with ds(2) have "is_digit c" by simp
  then have sign: "hd ds \<noteq> CHR ''+''" "hd ds \<noteq> CHR ''-''"
    using is_digit_not_sign [of c] c by simp_all
  show ?thesis
  proof (cases "length ds < 19")
    case True
    with ds sign show ?thesis
      by (simp add: Atoi_def Atoi_fast_short)
  next
    case False
    have "ParseUint ds = (digits_value 0 ds, None)"
      using ds hi by (simp add: ParseUint_def ParseUint_loop_digits)
    moreover have "int64 (digits_value 0 ds) = digits_value 0 ds"
      using digits_value_nonneg [OF ds(2)] hi by (intro int64_id) simp_all
    ultimately show ?thesis
      using False ds(1) sign hi by (simp add: Atoi_def ParseInt_def uint64_def)
  qed
qed

lemma Atoi_plus:
  assumes ds: "ds \<noteq> []" "list_all is_digit ds" and hi: "digits_value 0 ds < 2 ^ 63"
  shows "Atoi (CHR ''+'' # ds) = (digits_value 0 ds, None)"
proof (cases "length (CHR ''+'' # ds) < 19")
  case True
  with ds show ?thesis
    by (simp add: Atoi_def Atoi_fast_short)
next
  case False
  have "ParseUint ds = (digits_value 0 ds, None)"
    using ds hi by (simp add: ParseUint_def ParseUint_loop_digits)
  moreover have "int64 (digits_value 0 ds) = digits_value 0 ds"
    using digits_value_nonneg [OF ds(2)] hi by (intro int64_id) simp_all
  ultimately show ?thesis
    using False hi by (simp add: Atoi_def ParseInt_def uint64_def)
qed

lemma Atoi_minus:
  assumes ds: "ds \<noteq> []" "list_all is_digit ds" and lo: "digits_value 0 ds \<le> 2 ^ 63"
  shows "Atoi (CHR ''-'' # ds) = (- digits_value 0 ds, None)"
proof (cases "length (CHR ''-'' # ds) < 19")
  case True
  have "int64 (- digits_value 0 ds) = - digits_value 0 ds"
    using digits_value_nonneg [OF ds(2)] lo by (intro int64_id) simp_all
  with True ds show ?thesis
    by (simp add: Atoi_def Atoi_fast_short)
next
  case False
  have "ParseUint ds = (digits_value 0 ds, None)"
    using ds lo by (simp add: ParseUint_def ParseUint_loop_digits)
  moreover have "int64 (- int64 (digits_value 0 ds)) = - digits_value 0 ds"
    using digits_value_nonneg [OF ds(2)] lo by (rule int64_neg_int64)
  ultimately show ?thesis
    using False lo by (simp add: Atoi_def ParseInt_def uint64_def)
qed

lemma Atoi_base10_integer:
  assumes "base10_integer s = Some N" and "- (2 ^ 63) \<le> N" and "N < 2 ^ 63"
  shows "Atoi s = (N, None)"
  using assms(1)
proof (rule base10_integerE)
  fix ds
  assume ds: "ds \<noteq> []" "list_all is_digit ds"
    and "s = ds \<and> N = digits_value 0 ds \<or> s = CHR ''+'' # ds \<and> N = digits_value 0 ds
         \<or> s = CHR ''-'' # ds \<and> N = - digits_value 0 ds"
  then consider "s = ds" "N = digits_value 0 ds" | "s = CHR ''+'' # ds" "N = digits_value 0 ds"
    | "s = CHR ''-'' # ds" "N = - digits_value 0 ds"
    by blast
  then show ?thesis
  proof cases
    case 1
    with ds assms(3) show ?thesis by (simp add: Atoi_unsigned)
  next
    case 2
    with ds assms(3) show ?thesis by (simp add: Atoi_plus)
  next
    case 3
    with ds assms(2) show ?thesis by (simp add: Atoi_minus)
  qed
qed

lemma base10_integer_no_sep:
  assumes "base10_integer s = Some N"
  shows "CHR ''|'' \<notin> set s \<and> CHR 0x0A \<notin> set s"
  using assms
proof (rule base10_integerE)
  fix ds
  assume ds: "list_all is_digit ds"
    and s: "s = ds \<and> N = digits_value 0 ds \<or> s = CHR ''+'' # ds \<and> N = digits_value 0 ds
         \<or> s = CHR ''-'' # ds \<and> N = - digits_value 0 ds"
  from ds have "CHR ''|'' \<notin> set ds \<and> CHR 0x0A \<notin> set ds"
    using is_digit_not_sep by (auto simp: list_all_iff)
  with s show ?thesis by auto
qed

section \<open>The handler on a successful run\<close>

lemma last_line_second_to_last:
  assumes "Split out (CHR 0x0A) = pre @ [t, fin]"
  shows "last_line out = Inr t"
  using assms by (simp add: last_line_def index_at_def Let_def nth_append)

lemma Split_trailer:
  assumes "logs = [] \<or> last logs = CHR 0x0A" and "CHR 0x0A \<notin> set t"
  shows "\<exists>pre. Split (logs @ t @ [CHR 0x0A]) (CHR 0x0A) = pre @ [t, []]"
proof (cases "logs = []")
  case True
  with assms(2) have "Split (logs @ t @ [CHR 0x0A]) (CHR 0x0A) = [] @ [t, []]"
    by (simp add: Split_first Split_Nil)
  then show ?thesis by blast
next
  case False
  with assms(1) obtain p where p: "logs = p @ [CHR 0x0A]"
    by (metis append_butlast_last_id)
  have "Split (logs @ t @ [CHR 0x0A]) (CHR 0x0A)
      = Split (p @ CHR 0x0A # (t @ [CHR 0x0A])) (CHR 0x0A)"
    by (simp add: p)
  also have "\<dots> = Split p (CHR 0x0A) @ Split (t @ [CHR 0x0A]) (CHR 0x0A)"
    by (rule Split_append)
  also have "Split (t @ [CHR 0x0A]) (CHR 0x0A) = [t, []]"
    using assms(2) by (simp add: Split_first Split_Nil)
  finally show ?thesis by blast
qed

lemma respond_parts:
  assumes "CHR ''|'' \<notin> set body"
  shows "respond (body @ CHR ''|'' # rest) =
    (let status = fst (Atoi (takeWhile (\<lambda>c. c \<noteq> CHR ''|'') rest))
     in if status < 100 \<or> status > 999 then Panicked (InvalidWriteHeaderCode status) []
        else Returned [WriteHeader status, Write body])"
proof -
  have parts: "Split (body @ CHR ''|'' # rest) (CHR ''|'') = body # Split rest (CHR ''|'')"
    using assms by (rule Split_first)
  obtain f fs where fs: "Split rest (CHR ''|'') = f # fs"
    using Split_not_Nil [of rest "CHR ''|''"] by (cases "Split rest (CHR ''|'')") auto
  with hd_Split [of rest "CHR ''|''"] have f: "f = takeWhile (\<lambda>c. c \<noteq> CHR ''|'') rest"
    by simp
  show ?thesis
    by (simp add: respond_def parts fs f index_at_def checkWriteHeaderCode_def Let_def)
qed

text \<open>
  Claim C1, as amended. Take a request other than \<^verbatim>\<open>/favicon.ico\<close> whose guest ran
  without error and whose captured output ends in the line \<^verbatim>\<open>body|N\<close> and a newline:
  whatever precedes the line is empty or ends in a newline, \<open>body\<close> has no \<^verbatim>\<open>|\<close> and
  no newline, and \<open>N\<close> is a base-10 integer from 100 to 999, the status codes that
  \<^verbatim>\<open>WriteHeader\<close> accepts. Then the handler returns after exactly two calls on the
  response writer: \<^verbatim>\<open>WriteHeader(N)\<close> and \<^verbatim>\<open>Write(body)\<close>, the body unchanged.
\<close>

theorem well_formed_trailer_decoded:
  assumes "path \<noteq> ''/favicon.ico''"
    and "logs = [] \<or> last logs = CHR 0x0A"
    and "CHR ''|'' \<notin> set body" and "CHR 0x0A \<notin> set body"
    and "base10_integer num = Some N" and "100 \<le> N" and "N \<le> 999"
  shows "handleRunEndpoint path (logs @ body @ ''|'' @ num @ [CHR 0x0A]) None =
    Returned [WriteHeader N, Write body]"
proof -
  from base10_integer_no_sep [OF assms(5)]
  have num: "CHR ''|'' \<notin> set num" "CHR 0x0A \<notin> set num"
    by simp_all
  with assms(4) have "CHR 0x0A \<notin> set (body @ ''|'' @ num)"
    by simp
  with assms(2) obtain pre
    where "Split (logs @ (body @ ''|'' @ num) @ [CHR 0x0A]) (CHR 0x0A)
      = pre @ [body @ ''|'' @ num, []]"
    using Split_trailer by blast
  then have line: "last_line (logs @ body @ ''|'' @ num @ [CHR 0x0A]) = Inr (body @ ''|'' @ num)"
    using last_line_second_to_last by simp
  have field: "takeWhile (\<lambda>c. c \<noteq> CHR ''|'') num = num"
    using num(1) by (rule takeWhile_no_sep)
  have status: "Atoi num = (N, None)"
    using assms(5-7) by (intro Atoi_base10_integer) simp_all
  have "respond (body @ CHR ''|'' # num) = Returned [WriteHeader N, Write body]"
    unfolding respond_parts [OF assms(3), of num] field status
    using assms(6,7) by (simp add: Let_def)
  then have "respond (body @ ''|'' @ num) = Returned [WriteHeader N, Write body]"
    by simp
  with line assms(1) show ?thesis
    by (simp add: handleRunEndpoint_def)
qed

text \<open>
  The scenario of the specification: the output \<^verbatim>\<open>hello|200\<close> and a newline gives status
  200 and body \<^verbatim>\<open>hello\<close>, with or without a log line before it.
\<close>

theorem well_formed_trailer_decoded_witness:
  "handleRunEndpoint ''/'' ''hello|200\<newline>'' None
     = Returned [WriteHeader 200, Write ''hello''] \<and>
   handleRunEndpoint ''/'' ''starting up\<newline>hello|200\<newline>'' None
     = Returned [WriteHeader 200, Write ''hello'']"
proof -
  have d: "base10_integer ''200'' = Some 200"
    by code_simp
  have p: "''/'' \<noteq> ''/favicon.ico''"
    by simp
  have "handleRunEndpoint ''/'' ([] @ ''hello'' @ ''|'' @ ''200'' @ [CHR 0x0A]) None
      = Returned [WriteHeader 200, Write ''hello'']"
    using well_formed_trailer_decoded [OF p _ _ _ d, of "[]" "''hello''"] by simp
  moreover have "handleRunEndpoint ''/''
      (''starting up\<newline>'' @ ''hello'' @ ''|'' @ ''200'' @ [CHR 0x0A]) None
      = Returned [WriteHeader 200, Write ''hello'']"
    using well_formed_trailer_decoded [OF p _ _ _ d, of "''starting up\<newline>''" "''hello''"]
    by simp
  ultimately show ?thesis by simp
qed

text \<open>
  Claim C1 as stated, for every base-10 integer, fails. For \<^verbatim>\<open>x|5\<close> the closure
  panics inside \<^verbatim>\<open>WriteHeader(5)\<close> and sends neither status nor body. For
  \<open>2 ^ 63\<close>, \<open>Atoi\<close> reports a range error that the handler drops, and the closure
  panics inside \<^verbatim>\<open>WriteHeader\<close> with the largest \<^verbatim>\<open>int\<close>.
\<close>

theorem status_outside_three_digits_counterexample:
  "base10_integer ''5'' = Some 5 \<and>
   handleRunEndpoint ''/'' ''x|5\<newline>'' None = Panicked (InvalidWriteHeaderCode 5) [] \<and>
   base10_integer ''1000'' = Some 1000 \<and>
   handleRunEndpoint ''/'' ''x|1000\<newline>'' None = Panicked (InvalidWriteHeaderCode 1000) [] \<and>
   base10_integer ''9223372036854775808'' = Some 9223372036854775808 \<and>
   Atoi ''9223372036854775808'' = (9223372036854775807, Some ErrRange) \<and>
   handleRunEndpoint ''/'' ''x|9223372036854775808\<newline>'' None
     = Panicked (InvalidWriteHeaderCode 9223372036854775807) []"
  by code_simp

text \<open>
  Claim C5. For a request other than \<^verbatim>\<open>/favicon.ico\<close> whose guest ran without error and
  whose output splits on newlines into at least two elements, the line the handler
  decodes is the element at index \<open>length - 2\<close>, and the response is a function of
  that element alone: the elements before it and the last element play no part.
\<close>

theorem trailer_is_second_to_last_line:
  assumes "path \<noteq> ''/favicon.ico''"
    and "2 \<le> length (Split out (CHR 0x0A))"
  shows "last_line out = Inr (Split out (CHR 0x0A) ! (length (Split out (CHR 0x0A)) - 2)) \<and>
    handleRunEndpoint path out None
      = respond (Split out (CHR 0x0A) ! (length (Split out (CHR 0x0A)) - 2)) \<and>
    (\<forall>pre t fin. Split out (CHR 0x0A) = pre @ [t, fin]
      \<longrightarrow> handleRunEndpoint path out None = respond t)"
proof -
  let ?ls = "Split out (CHR 0x0A)"
  have idx: "nat (int (length ?ls) - 2) = length ?ls - 2"
    by linarith
  have line: "last_line out = Inr (?ls ! (length ?ls - 2))"
    using assms(2) by (simp add: last_line_def Let_def index_at_def idx)
  then have run: "handleRunEndpoint path out None = respond (?ls ! (length ?ls - 2))"
    using assms(1) by (simp add: handleRunEndpoint_def)
  have "handleRunEndpoint path out None = respond t" if "?ls = pre @ [t, fin]" for pre t fin
    using that assms(1) last_line_second_to_last [of out pre t fin]
    by (simp add: handleRunEndpoint_def)
  with line run show ?thesis by blast
qed

theorem trailer_is_second_to_last_line_witness:
  "2 \<le> length (Split ''debug: a|b\<newline>hello|200\<newline>tail'' (CHR 0x0A)) \<and>
   last_line ''debug: a|b\<newline>hello|200\<newline>tail'' = Inr ''hello|200'' \<and>
   handleRunEndpoint ''/'' ''debug: a|b\<newline>hello|200\<newline>tail'' None
     = Returned [WriteHeader 200, Write ''hello'']"
proof -
  have s: "Split ''debug: a|b\<newline>hello|200\<newline>tail'' (CHR 0x0A) = [''debug: a|b'', ''hello|200'', ''tail'']"
    by code_simp
  have r: "respond ''hello|200'' = Returned [WriteHeader 200, Write ''hello'']"
    by code_simp
  have p: "''/'' \<noteq> ''/favicon.ico''"
    by simp
  have l: "2 \<le> length (Split ''debug: a|b\<newline>hello|200\<newline>tail'' (CHR 0x0A))"
    by (simp add: s)
  from trailer_is_second_to_last_line [OF p l] r l show ?thesis
    by (simp add: s)
qed




section \<open>The handler when the guest fails or writes something else\<close>

text \<open>
  Claim C7, as amended. For a request other than \<^verbatim>\<open>/favicon.ico\<close>, when
  \<^verbatim>\<open>InstantiateModule\<close> returns an error the handler writes the error's message,
  unchanged, as the response body and returns. It makes no other call on the response
  writer: it sets no status code, and it does not look at the captured output.
\<close>

theorem execution_error_written_to_client:
  assumes "path \<noteq> ''/favicon.ico''"
  shows "handleRunEndpoint path out (Some msg) = Returned [Write msg]"
  using assms by (simp add: handleRunEndpoint_def)

theorem execution_error_written_to_client_witness:
  "handleRunEndpoint ''/'' ''partial|200\<newline>'' (Some ''module closed with exit_code(1)'')
     = Returned [Write ''module closed with exit_code(1)'']"
proof -
  have p: "''/'' \<noteq> ''/favicon.ico''"
    by simp
  from execution_error_written_to_client [OF p] show ?thesis .
qed

text \<open>
  Claim C7 as stated fails: the message of the error is the body the client receives,
  and the handler chooses no status.
\<close>

theorem execution_error_hidden_counterexample:
  "handleRunEndpoint ''/run'' [] (Some ''wasm error: unreachable'')
     = Returned [Write ''wasm error: unreachable'']"
  by code_simp

text \<open>
  The decoding indexes twice without looking at the length. An output without a newline
  splits into one element, and \<^verbatim>\<open>lines[len(lines)-2]\<close> is \<^verbatim>\<open>lines[-1]\<close>; a trailer
  line without \<^verbatim>\<open>|\<close> splits into one part, and \<^verbatim>\<open>parts[1]\<close> is out of range. Either
  way the handler panics before it has called the response writer. A panic inside
  \<^verbatim>\<open>WriteHeader\<close> comes before anything is written, too: no panic of the handler
  leaves a call behind.
\<close>

lemma output_without_newline_panics:
  assumes "path \<noteq> ''/favicon.ico''" and "CHR 0x0A \<notin> set out"
  shows "handleRunEndpoint path out None = Panicked (IndexOutOfRange (- 1) 1) []"
  using assms
  by (simp add: handleRunEndpoint_def last_line_def index_at_def Split_no_sep)

lemma trailer_without_separator_panics:
  assumes "path \<noteq> ''/favicon.ico''"
    and "Split out (CHR 0x0A) = pre @ [t, fin]" and "CHR ''|'' \<notin> set t"
  shows "handleRunEndpoint path out None = Panicked (IndexOutOfRange 1 1) []"
proof -
  have "last_line out = Inr t"
    using assms(2) by (rule last_line_second_to_last)
  moreover have "respond t = Panicked (IndexOutOfRange 1 1) []"
    using assms(3) by (simp add: respond_def index_at_def Split_no_sep)
  ultimately show ?thesis
    using assms(1) by (simp add: handleRunEndpoint_def)
qed

lemma panic_before_any_write:
  assumes "handleRunEndpoint path out err = Panicked p calls"
  shows "calls = []"
proof -
  have "calls = []" if "respond t = Panicked p calls" for t
  proof -
    obtain x xs where "Split t (CHR ''|'') = x # xs"
      using Split_not_Nil [of t "CHR ''|''"] by (cases "Split t (CHR ''|'')") auto
    with that show ?thesis
      by (auto simp: respond_def index_at_def checkWriteHeaderCode_def Let_def split: if_splits)
  qed
  with assms show ?thesis
    by (auto simp: handleRunEndpoint_def split: if_splits option.splits sum.splits)
qed

text \<open>
  Whenever \<open>Atoi\<close> reports an error, the value beside it is 0 or a bound of
  \<^verbatim>\<open>int\<close>, never a status that \<^verbatim>\<open>WriteHeader\<close> accepts. So on every output whose
  status field \<open>Atoi\<close> rejects, the handler panics inside \<^verbatim>\<open>WriteHeader\<close>.
\<close>

lemma Atoi_error_value:
  assumes "snd (Atoi s) \<noteq> None"
  shows "fst (Atoi s) = 0 \<or> fst (Atoi s) = 2 ^ 63 - 1 \<or> fst (Atoi s) = - (2 ^ 63)"
proof (cases "0 < length s \<and> length s < 19")
  case True
  with assms show ?thesis
    by (auto simp: Atoi_def Let_def split: if_splits option.splits)
next
  case False
  then have slow: "Atoi s = ParseInt s"
    by (auto simp: Atoi_def)
  have bounds: "int64 (uint64 9223372036854775808 - 1) = 9223372036854775807"
    "int64 (- int64 (uint64 9223372036854775808)) = - 9223372036854775808"
    by (simp_all add: int64_def uint64_def)
  from assms show ?thesis
    unfolding slow ParseInt_def Let_def
    by (auto simp: bounds split: if_splits prod.splits)
qed

lemma dropped_error_panics:
  assumes "path \<noteq> ''/favicon.ico''"
    and "Split out (CHR 0x0A) = pre @ [t, fin]"
    and "CHR ''|'' \<in> set t"
    and "snd (Atoi (Split t (CHR ''|'') ! 1)) \<noteq> None"
  shows "handleRunEndpoint path out None
    = Panicked (InvalidWriteHeaderCode (fst (Atoi (Split t (CHR ''|'') ! 1)))) []"
proof -
  from assms(3) obtain body rest
    where t: "t = body @ CHR ''|'' # rest" and body: "CHR ''|'' \<notin> set body"
    by (meson split_list_first)
  have parts: "Split t (CHR ''|'') = body # Split rest (CHR ''|'')"
    unfolding t using body by (rule Split_first)
  obtain f fs where fs: "Split rest (CHR ''|'') = f # fs"
    using Split_not_Nil [of rest "CHR ''|''"] by (cases "Split rest (CHR ''|'')") auto
  with hd_Split [of rest "CHR ''|''"] have f: "f = takeWhile (\<lambda>c. c \<noteq> CHR ''|'') rest"
    by simp
  have field: "Split t (CHR ''|'') ! 1 = f"
    by (simp add: parts fs)
  from Atoi_error_value [OF assms(4)]
  have "fst (Atoi f) < 100 \<or> fst (Atoi f) > 999"
    unfolding field by auto
  then have "respond t = Panicked (InvalidWriteHeaderCode (fst (Atoi f))) []"
    using respond_parts [OF body, of rest] by (simp add: t f Let_def)
  moreover have "last_line out = Inr t"
    using assms(2) by (rule last_line_second_to_last)
  ultimately show ?thesis
    using assms(1) unfolding field by (simp add: handleRunEndpoint_def)
qed

text \<open>
  Claim C4 (fewer than two lines give a protocol error, never an index out of bounds)
  does not hold of the code: on the empty output, and on an output with no newline, the
  handler panics with index \<open>-1\<close> out of range.
\<close>

theorem empty_output_panics:
  "handleRunEndpoint ''/'' [] None = Panicked (IndexOutOfRange (- 1) 1) [] \<and>
   handleRunEndpoint ''/'' ''hello|200'' None = Panicked (IndexOutOfRange (- 1) 1) []"
  by code_simp

text \<open>
  Claim C2 (a trailer line without \<^verbatim>\<open>|\<close> gives a host-generated 502) does not hold of
  the code: on \<^verbatim>\<open>garbage\<close> and a newline the handler panics with index 1 out of range
  and writes no response.
\<close>

theorem missing_separator_panics:
  "handleRunEndpoint ''/'' ''garbage\<newline>'' None = Panicked (IndexOutOfRange 1 1) []"
  by code_simp

text \<open>
  Claim C3 (a status field that is not an integer gives a host-generated error status)
  does not hold of the code: the error of \<open>Atoi\<close> is dropped and the value returned
  beside it is handed to \<^verbatim>\<open>WriteHeader\<close>. That value is 0 after a syntax error and
  the nearest bound of \<^verbatim>\<open>int\<close> after a range error; \<^verbatim>\<open>WriteHeader\<close> panics on
  either, and the client is sent no status at all.
\<close>

theorem unparsed_status_panics:
  "Atoi ''abc'' = (0, Some ErrSyntax) \<and>
   handleRunEndpoint ''/'' ''hello|abc\<newline>'' None = Panicked (InvalidWriteHeaderCode 0) [] \<and>
   Atoi ''99999999999999999999x'' = (9223372036854775807, Some ErrRange) \<and>
   handleRunEndpoint ''/'' ''hello|99999999999999999999x\<newline>'' None
     = Panicked (InvalidWriteHeaderCode 9223372036854775807) []"
  by code_simp

end
